theory Spec2Isabelle
  imports Main "HOL-Library.Word"
begin

section \<open>PKCE generator (pkce.ts)\<close>

text \<open>
  A Node \<^verbatim>\<open>Buffer\<close> is a list of bytes. \<^verbatim>\<open>Buffer.toString('base64')\<close> is the library's
  standard base64 encoder (alphabet ending in \<^verbatim>\<open>+/\<close>, padded with \<^verbatim>\<open>=\<close>), modelled by
  \<open>toString_base64\<close>. The hash of \<^verbatim>\<open>crypto.createHash('sha256')\<close> is library code and
  is taken as a parameter of \<open>generateCodeChallenge\<close>.
\<close>

type_synonym byte = "8 word"

definition common_alphabet :: string where
  "common_alphabet = ''ABCDEFGHIJKLMNOPQRSTUVWXYZabcdefghijklmnopqrstuvwxyz0123456789''"

definition std_alphabet :: string where
  "std_alphabet = common_alphabet @ ''+/''"

definition url_alphabet :: string where
  "url_alphabet = common_alphabet @ ''-_''"

definition sextets3 :: "byte \<Rightarrow> byte \<Rightarrow> byte \<Rightarrow> nat list" where
  "sextets3 a b c =
     [unat a div 4, (unat a mod 4) * 16 + unat b div 16,
      (unat b mod 16) * 4 + unat c div 64, unat c mod 64]"

fun toString_base64 :: "byte list \<Rightarrow> string" where
  "toString_base64 [] = []"
| "toString_base64 [a] = map ((!) std_alphabet) (take 2 (sextets3 a 0 0)) @ ''==''"
| "toString_base64 [a, b] = map ((!) std_alphabet) (take 3 (sextets3 a b 0)) @ ''=''"
| "toString_base64 (a # b # c # rest) =
     map ((!) std_alphabet) (sextets3 a b c) @ toString_base64 rest"

text \<open>
  The specification's encoder, written independently of the source: the url-safe alphabet
  and no padding.
\<close>

fun base64url_nopad :: "byte list \<Rightarrow> string" where
  "base64url_nopad [] = []"
| "base64url_nopad [a] = map ((!) url_alphabet) (take 2 (sextets3 a 0 0))"
| "base64url_nopad [a, b] = map ((!) url_alphabet) (take 3 (sextets3 a b 0))"
| "base64url_nopad (a # b # c # rest) =
     map ((!) url_alphabet) (sextets3 a b c) @ base64url_nopad rest"

text \<open>
  \<^verbatim>\<open>s.replace(/c/g, r)\<close> for a one-character pattern: every occurrence of \<open>c\<close> becomes \<open>r\<close>.
  \<open>base64URLEncode\<close> chains the three replacements of the source.
\<close>

definition replace_all :: "char \<Rightarrow> string \<Rightarrow> string \<Rightarrow> string" where
  "replace_all c r s = concat (map (\<lambda>x. if x = c then r else [x]) s)"

definition url_replacements :: "string \<Rightarrow> string" where
  "url_replacements s =
     replace_all (CHR ''='') [] (replace_all (CHR ''/'') ''_'' (replace_all (CHR ''+'') ''-'' s))"

definition base64URLEncode :: "byte list \<Rightarrow> string" where
  "base64URLEncode buffer = url_replacements (toString_base64 buffer)"

definition generateCodeChallenge :: "(string \<Rightarrow> byte list) \<Rightarrow> string \<Rightarrow> string" where
  "generateCodeChallenge sha256 verifier = base64URLEncode (sha256 verifier)"

section \<open>Callback listener (authServer.ts)\<close>

text \<open>
  A value of \<^verbatim>\<open>url.parse(req.url, true).query\<close> is a string, an array of strings (the
  parameter is repeated) or undefined. The handler tests such a value in three ways:
  \<^verbatim>\<open>if (v)\<close> (\<open>truthy\<close>: the empty string and undefined are falsy, an array is truthy),
  \<^verbatim>\<open>v !== state\<close> (\<open>strict_neq\<close>: only a string can be equal to the string \<open>state\<close>), and
  by its string conversion when it is put into a page or a form (\<open>js_string\<close>).
\<close>

datatype qparam = Absent | Single string | Multiple "string list"

fun truthy :: "qparam \<Rightarrow> bool" where
  "truthy Absent = False"
| "truthy (Single s) = (s \<noteq> [])"
| "truthy (Multiple xs) = True"

fun join_comma :: "string list \<Rightarrow> string" where
  "join_comma [] = []"
| "join_comma [x] = x"
| "join_comma (x # y # ys) = x @ '','' @ join_comma (y # ys)"

fun js_string :: "qparam \<Rightarrow> string" where
  "js_string Absent = ''undefined''"
| "js_string (Single s) = s"
| "js_string (Multiple xs) = join_comma xs"

fun strict_neq :: "qparam \<Rightarrow> string \<Rightarrow> bool" where
  "strict_neq (Single s) t = (s \<noteq> t)"
| "strict_neq _ t = True"

text \<open>
  A request as the handler sees it: the parsed path (null for an empty url) and the three
  query parameters it reads.
\<close>

record request =
  pathname :: "string option"
  query_code :: qparam
  query_state :: qparam
  query_error :: qparam

text \<open>
  The object \<open>exchangeCodeForToken\<close> returns. A token the provider left out is the empty
  string: the callers only test these strings for truthiness.
\<close>

record auth_result =
  result_accessToken :: string
  result_refreshToken :: string
  result_expiresIn :: int

datatype exchange_reply = Exchange_ok auth_result | Exchange_failed

text \<open>
  The page written to the browser: \<open>getSuccessHtml()\<close>, or \<open>getErrorHtml(error)\<close> with the
  message it shows.
\<close>

datatype page = Success_html | Error_html string

datatype 'a promise = Pending | Resolved 'a | Rejected

text \<open>
  One call of \<open>AuthServer.authenticate\<close>, after the executor of its promise has run:
  \<open>state\<close> and \<open>codeVerifier\<close> are the random strings drawn for the attempt,
  \<open>server_listening\<close> says whether \<open>this.server\<close> is bound to port 8888, \<open>outcome\<close> is the
  promise returned to the caller, \<open>pages\<close> are the responses written so far and \<open>exchanges\<close>
  the codes of the token exchanges awaiting the provider's reply.
\<close>

record AuthServer =
  state :: string
  codeVerifier :: string
  server_listening :: bool
  outcome :: "auth_result option promise"
  pages :: "page list"
  exchanges :: "string list"

text \<open>
  \<open>this.server.close()\<close> stops listening, and may be repeated. \<open>resolve(v)\<close> settles the
  promise once: a promise already settled ignores it. The executor binds \<open>resolve\<close> only, so
  no call of the model produces \<open>Rejected\<close>.
\<close>

definition close_server :: "AuthServer \<Rightarrow> AuthServer" where
  "close_server a = a\<lparr>server_listening := False\<rparr>"

definition resolve :: "auth_result option \<Rightarrow> AuthServer \<Rightarrow> AuthServer" where
  "resolve v a = (if outcome a = Pending then a\<lparr>outcome := Resolved v\<rparr> else a)"

definition respond :: "page \<Rightarrow> AuthServer \<Rightarrow> AuthServer" where
  "respond p a = a\<lparr>pages := pages a @ [p]\<rparr>"

definition authenticate_start :: "string \<Rightarrow> string \<Rightarrow> AuthServer" where
  "authenticate_start verifier st =
     \<lparr>state = st, codeVerifier = verifier, server_listening = True, outcome = Pending,
      pages = [], exchanges = []\<rparr>"

text \<open>
  The request handler up to its \<^verbatim>\<open>await\<close> (lines 38--81), branch by branch in the order of
  the source. In the \<open>code\<close> branch the token exchange is sent and the handler is suspended;
  \<open>on_exchange_reply\<close> is the rest of that branch, run when the provider has answered the
  exchange at position \<open>i\<close> of those in flight. After the \<open>code\<close> test the source has no
  \<^verbatim>\<open>else\<close>, and a request on another path falls out of the outer test.
\<close>

definition on_request :: "request \<Rightarrow> AuthServer \<Rightarrow> AuthServer" where
  "on_request req a =
     (if pathname req = Some ''/callback'' then
        (if truthy (query_error req) then
           resolve None (close_server (respond (Error_html (js_string (query_error req))) a))
         else if strict_neq (query_state req) (state a) then
           resolve None (close_server (respond (Error_html ''State mismatch'') a))
         else if truthy (query_code req) then
           a\<lparr>exchanges := exchanges a @ [js_string (query_code req)]\<rparr>
         else a)
      else a)"

definition on_exchange_reply :: "nat \<Rightarrow> exchange_reply \<Rightarrow> AuthServer \<Rightarrow> AuthServer" where
  "on_exchange_reply i r a =
     (if i < length (exchanges a) then
        (let a' = a\<lparr>exchanges := take i (exchanges a) @ drop (Suc i) (exchanges a)\<rparr>
         in case r of
              Exchange_ok tokenResponse \<Rightarrow>
                resolve (Some tokenResponse) (close_server (respond Success_html a'))
            | Exchange_failed \<Rightarrow>
                resolve None
                  (close_server (respond (Error_html ''Failed to get access token'') a')))
      else a)"

text \<open>
  The callback of \<^verbatim>\<open>setTimeout(..., 300000)\<close> (\<open>this.server\<close> is set by then), and
  \<open>dispose\<close>.
\<close>

definition on_timeout :: "AuthServer \<Rightarrow> AuthServer" where
  "on_timeout a = resolve None (close_server a)"

definition dispose :: "AuthServer \<Rightarrow> AuthServer" where
  "dispose a = close_server a"

text \<open>
  What can happen to an attempt besides its timer. A request reaches the handler only while
  the server listens.
\<close>

datatype event = Request request | Exchange_reply nat exchange_reply | Dispose

fun deliver :: "AuthServer \<Rightarrow> event \<Rightarrow> AuthServer" where
  "deliver a (Request req) = (if server_listening a then on_request req a else a)"
| "deliver a (Exchange_reply i r) = on_exchange_reply i r a"
| "deliver a Dispose = dispose a"

text \<open>
  Time: a timeline gives every event its arrival time in milliseconds since
  \<open>authenticate\<close> was called, in order of arrival; the timer fires at \<open>timeout_ms\<close>.
  \<open>attempt_at t\<close> is the attempt as it stands at time \<open>t\<close>.
\<close>

definition timeout_ms :: nat where
  "timeout_ms = 300000"

definition attempt_at :: "nat \<Rightarrow> (nat \<times> event) list \<Rightarrow> AuthServer \<Rightarrow> AuthServer" where
  "attempt_at t timeline a =
     (let early = map snd (filter (\<lambda>(at, e). at < timeout_ms \<and> at \<le> t) timeline);
          late = map snd (filter (\<lambda>(at, e). timeout_ms \<le> at \<and> at \<le> t) timeline)
      in if t < timeout_ms then foldl deliver a early
         else foldl deliver (on_timeout (foldl deliver a early)) late)"

fun is_callback :: "event \<Rightarrow> bool" where
  "is_callback (Request req) = (pathname req = Some ''/callback'')"
| "is_callback _ = False"

definition favicon_request :: request where
  "favicon_request = \<lparr>pathname = Some ''/favicon.ico'', query_code = Absent,
     query_state = Absent, query_error = Absent\<rparr>"

section \<open>Token manager (spotifyService.ts)\<close>

text \<open>
  The credential as \<^verbatim>\<open>types.ts\<close> declares it. A refresh token the provider did not send is
  the empty string: the service only tests it for truthiness. \<open>expiresAt\<close> and the clock
  count milliseconds.
\<close>

record SpotifyTokens =
  accessToken :: string
  refreshToken :: string
  expiresAt :: int

record SpotifyTrack =
  name :: string
  artist :: string
  album :: string
  albumArt :: string
  duration :: int
  progress :: int
  isPlaying :: bool

text \<open>
  The state the service reads and writes: \<open>this.tokens\<close>, the value stored under
  \<^verbatim>\<open>'spotifyTokens'\<close> in \<open>context.globalState\<close>, and the clock \<^verbatim>\<open>Date.now()\<close> reads.
\<close>

record SpotifyService =
  tokens :: "SpotifyTokens option"
  globalState :: "SpotifyTokens option"
  now :: int

definition CLIENT_ID :: string where
  "CLIENT_ID = ''3a0a1cc0ad994ad1ba5cf091571e79c2''"

subsection \<open>Asynchronous calls\<close>

text \<open>
  An \<^verbatim>\<open>async\<close> method runs on the single thread until it awaits the outside world, and is
  resumed with the answer, on the state as it is by then. A \<open>step\<close> is how far a call got:
  it returned (\<open>Done\<close>), threw a TypeError (\<open>Throw\<close>), or is suspended on a request, holding
  the state it left behind and what it does with the answer. The requests are the POST to
  the token endpoint with a refresh token and a client id, a call of the Web API with an access
  token, a warning with a button, \<open>AuthServer.authenticate\<close>, and \<open>openExternal\<close>. An
  \<^verbatim>\<open>await\<close> on \<open>globalState.get\<close> or \<open>globalState.update\<close> (the stored value is read
  and written at the call) and an \<^verbatim>\<open>await\<close> on another method of the service do not
  suspend in this model: other calls are interleaved at the requests above only. Messages
  shown without \<^verbatim>\<open>await\<close> and the console are left out.

  The methods call each other without bound (a refresh that fails may authenticate, which
  fetches the current track, which may refresh), so each takes the number of nested calls it
  may still make and is \<open>Out_of_fuel\<close> at zero.
\<close>

datatype endpoint = Currently_playing | Pause

datatype prompt = Refresh_failed | No_device

text \<open>
  What \<^verbatim>\<open>axios\<close> gives back. The token endpoint answers with \<open>access_token\<close>,
  \<open>refresh_token\<close> (empty when absent) and \<open>expires_in\<close>, or the request throws. A Web API
  call resolves with a 2xx status and the track of \<open>data.item\<close> (None when there is no data
  or no item), or throws an error whose \<open>response.status\<close> may be missing.
\<close>

datatype token_reply = Token_ok string string int | Token_error

datatype api_reply = Api_ok nat "SpotifyTrack option" | Api_error "nat option"

datatype 'a step =
    Done SpotifyService 'a
  | Throw SpotifyService
  | Out_of_fuel
  | Post_token SpotifyService string string "token_reply \<Rightarrow> SpotifyService \<Rightarrow> 'a step"
  | Call_api SpotifyService endpoint string "api_reply \<Rightarrow> SpotifyService \<Rightarrow> 'a step"
  | Show_warning SpotifyService prompt "bool \<Rightarrow> SpotifyService \<Rightarrow> 'a step"
  | Auth_server SpotifyService string "auth_result option \<Rightarrow> SpotifyService \<Rightarrow> 'a step"
  | Open_external SpotifyService "SpotifyService \<Rightarrow> 'a step"

text \<open>
  \<open>bind m f\<close> is \<^verbatim>\<open>const x = await m; f(x)\<close> for a method \<open>m\<close> of the service: an exception
  of \<open>m\<close> passes through. \<open>try_catch m h\<close> is \<^verbatim>\<open>try { m } catch { h }\<close>.
\<close>

primrec bind :: "'a step \<Rightarrow> ('a \<Rightarrow> SpotifyService \<Rightarrow> 'b step) \<Rightarrow> 'b step" where
  "bind (Done s a) f = f a s"
| "bind (Throw s) f = Throw s"
| "bind Out_of_fuel f = Out_of_fuel"
| "bind (Post_token s rt cid k) f = Post_token s rt cid (\<lambda>r s'. bind (k r s') f)"
| "bind (Call_api s e tok k) f = Call_api s e tok (\<lambda>r s'. bind (k r s') f)"
| "bind (Show_warning s p k) f = Show_warning s p (\<lambda>c s'. bind (k c s') f)"
| "bind (Auth_server s cid k) f = Auth_server s cid (\<lambda>r s'. bind (k r s') f)"
| "bind (Open_external s k) f = Open_external s (\<lambda>s'. bind (k s') f)"

primrec try_catch :: "'a step \<Rightarrow> (SpotifyService \<Rightarrow> 'a step) \<Rightarrow> 'a step" where
  "try_catch (Done s a) h = Done s a"
| "try_catch (Throw s) h = h s"
| "try_catch Out_of_fuel h = Out_of_fuel"
| "try_catch (Post_token s rt cid k) h = Post_token s rt cid (\<lambda>r s'. try_catch (k r s') h)"
| "try_catch (Call_api s e tok k) h = Call_api s e tok (\<lambda>r s'. try_catch (k r s') h)"
| "try_catch (Show_warning s p k) h = Show_warning s p (\<lambda>c s'. try_catch (k c s') h)"
| "try_catch (Auth_server s cid k) h = Auth_server s cid (\<lambda>r s'. try_catch (k r s') h)"
| "try_catch (Open_external s k) h = Open_external s (\<lambda>s'. try_catch (k s') h)"

subsection \<open>The methods of the service\<close>

text \<open>
  \<open>saveTokens\<close> sets the held credential and stores it. \<open>clear_both\<close> is the pair of
  assignments at the head of the \<^verbatim>\<open>catch\<close> of \<open>refreshAccessToken\<close>. \<open>refreshed_tokens\<close>
  and \<open>issued_tokens\<close> are the objects built from the response of a refresh and from the
  result of an authentication, at clock reading \<open>t\<close>.
\<close>

definition saveTokens :: "SpotifyTokens \<Rightarrow> SpotifyService \<Rightarrow> SpotifyService" where
  "saveTokens t s = s\<lparr>tokens := Some t, globalState := Some t\<rparr>"

definition clear_both :: "SpotifyService \<Rightarrow> SpotifyService" where
  "clear_both s = s\<lparr>tokens := None, globalState := None\<rparr>"

definition refreshed_tokens :: "SpotifyTokens \<Rightarrow> string \<Rightarrow> string \<Rightarrow> int \<Rightarrow> int \<Rightarrow> SpotifyTokens" where
  "refreshed_tokens old access_token refresh_token expires_in t =
     \<lparr>accessToken = access_token,
      refreshToken = (if refresh_token \<noteq> [] then refresh_token else refreshToken old),
      expiresAt = t + expires_in * 1000\<rparr>"

definition issued_tokens :: "auth_result \<Rightarrow> int \<Rightarrow> SpotifyTokens" where
  "issued_tokens result t =
     \<lparr>accessToken = result_accessToken result, refreshToken = result_refreshToken result,
      expiresAt = t + result_expiresIn result * 1000\<rparr>"

text \<open>
  \<open>loadTokens\<close> (lines 22--37), \<open>refreshAccessToken\<close> (96--147), \<open>authenticate\<close> (45--94),
  \<open>getValidToken\<close> (149--172) and \<open>getCurrentTrack\<close> (174--215). \<open>refreshAccessToken\<close> reads
  the stored credential, not the held one. The last line of \<open>getValidToken\<close> reads
  \<open>this.tokens\<close> again, and throws if it is null.
\<close>

fun loadTokens :: "nat \<Rightarrow> SpotifyService \<Rightarrow> unit step"
  and refreshAccessToken :: "nat \<Rightarrow> SpotifyService \<Rightarrow> bool step"
  and authenticate :: "nat \<Rightarrow> SpotifyService \<Rightarrow> bool step"
  and getValidToken :: "nat \<Rightarrow> SpotifyService \<Rightarrow> string option step"
  and getCurrentTrack :: "nat \<Rightarrow> SpotifyService \<Rightarrow> SpotifyTrack option step"
where
  "loadTokens 0 s = Out_of_fuel"
| "loadTokens (Suc n) s =
     (case globalState s of
        None \<Rightarrow> Done s ()
      | Some saved \<Rightarrow>
          if expiresAt saved > now s then Done (s\<lparr>tokens := Some saved\<rparr>) ()
          else if refreshToken saved \<noteq> [] then
            bind (refreshAccessToken n s) (\<lambda>_ s'. Done s' ())
          else Done s ())"
| "refreshAccessToken 0 s = Out_of_fuel"
| "refreshAccessToken (Suc n) s =
     (case globalState s of
        None \<Rightarrow> Done s False
      | Some stored \<Rightarrow>
          if refreshToken stored = [] then Done s False
          else
            Post_token s (refreshToken stored) CLIENT_ID (\<lambda>response s1.
              case response of
                Token_ok access_token refresh_token expires_in \<Rightarrow>
                  Done (saveTokens
                    (refreshed_tokens stored access_token refresh_token expires_in (now s1)) s1) True
              | Token_error \<Rightarrow>
                  Show_warning (clear_both s1) Refresh_failed (\<lambda>choice s2.
                    if choice then bind (authenticate n s2) (\<lambda>_ s3. Done s3 False)
                    else Done s2 False)))"
| "authenticate 0 s = Out_of_fuel"
| "authenticate (Suc n) s =
     (if CLIENT_ID = [] \<or> CLIENT_ID = ''YOUR_SPOTIFY_CLIENT_ID_HERE'' then Done s False
      else
        try_catch
          (Auth_server s CLIENT_ID (\<lambda>result s1.
             case result of
               None \<Rightarrow> Done s1 False
             | Some r \<Rightarrow>
                 Open_external (saveTokens (issued_tokens r (now s1)) s1) (\<lambda>s2.
                   bind (getCurrentTrack n s2) (\<lambda>track s3. Done s3 True))))
          (\<lambda>s'. Done s' False))"
| "getValidToken 0 s = Out_of_fuel"
| "getValidToken (Suc n) s =
     bind (if tokens s = None then loadTokens n s else Done s ())
       (\<lambda>_ s1.
          case tokens s1 of
            None \<Rightarrow> Done s1 None
          | Some held \<Rightarrow>
              if expiresAt held < now s1 + 5 * 60 * 1000 then
                (if refreshToken held \<noteq> [] then
                   bind (refreshAccessToken n s1) (\<lambda>refreshed s2.
                     if \<not> refreshed then Done s2 None
                     else (case tokens s2 of
                             None \<Rightarrow> Throw s2
                           | Some renewed \<Rightarrow> Done s2 (Some (accessToken renewed))))
                 else Done s1 None)
              else Done s1 (Some (accessToken held)))"
| "getCurrentTrack 0 s = Out_of_fuel"
| "getCurrentTrack (Suc n) s =
     bind (getValidToken n s) (\<lambda>token s1.
       case token of
         None \<Rightarrow> Done s1 None
       | Some tok \<Rightarrow>
           if tok = [] then Done s1 None
           else
             Call_api s1 Currently_playing tok (\<lambda>response s2.
               case response of
                 Api_ok status item \<Rightarrow>
                   if status = 204 \<or> item = None then Done s2 None else Done s2 item
               | Api_error status \<Rightarrow>
                   if status = Some 401 then
                     bind (refreshAccessToken n s2) (\<lambda>refreshed s3.
                       if refreshed then getCurrentTrack n s3 else Done s3 None)
                   else Done s2 None))"

text \<open>
  \<open>handleApiError\<close> (lines 388--409) and \<open>pause\<close> (271--285), one of the six methods that
  hand their errors to it; \<open>isAuthenticated\<close> (411--413).
\<close>

definition handleApiError :: "nat \<Rightarrow> nat option \<Rightarrow> SpotifyService \<Rightarrow> unit step" where
  "handleApiError n status s =
     (if status = Some 401 then
        bind (refreshAccessToken n s) (\<lambda>refreshed s'. Done s' ())
      else if status = Some 404 then
        Show_warning s No_device (\<lambda>choice s'.
          if choice then Open_external s' (\<lambda>s''. Done s'' ()) else Done s' ())
      else Done s ())"

definition pause :: "nat \<Rightarrow> SpotifyService \<Rightarrow> unit step" where
  "pause n s =
     bind (getValidToken n s) (\<lambda>token s1.
       case token of
         None \<Rightarrow> Done s1 ()
       | Some tok \<Rightarrow>
           if tok = [] then Done s1 ()
           else
             Call_api s1 Pause tok (\<lambda>response s2.
               case response of
                 Api_ok status item \<Rightarrow> Done s2 ()
               | Api_error status \<Rightarrow> handleApiError n status s2))"

definition isAuthenticated :: "SpotifyService \<Rightarrow> bool" where
  "isAuthenticated s =
     (case tokens s of
        None \<Rightarrow> False
      | Some held \<Rightarrow> expiresAt held > now s \<or> refreshToken held \<noteq> [])"

subsection \<open>Running a call\<close>

text \<open>
  An \<open>effect\<close> is a request as the outside world sees it, an \<open>answer\<close> what the outside
  world gives back. \<open>resume\<close> hands an answer to a suspended call on the current state; an
  answer of the wrong kind is not for this call. \<open>exec\<close> runs one call alone against a script
  of answers, each with the time that passed before it arrived, and gives the requests made, in
  order, and how the call ended: it returned, threw, ran out of fuel, or is still waiting for
  an answer the script does not hold.
\<close>

datatype effect =
    Refresh_grant string string
  | Api_request endpoint string
  | Prompt prompt
  | Auth_flow string
  | External_open

datatype answer =
    Token_answer token_reply
  | Api_answer api_reply
  | Choice bool
  | Auth_answer "auth_result option"
  | Opened

datatype 'a outcome = Returned 'a SpotifyService | Threw SpotifyService | Diverged
  | Blocked SpotifyService

fun effect_of :: "'a step \<Rightarrow> effect list" where
  "effect_of (Post_token s rt cid k) = [Refresh_grant rt cid]"
| "effect_of (Call_api s e tok k) = [Api_request e tok]"
| "effect_of (Show_warning s p k) = [Prompt p]"
| "effect_of (Auth_server s cid k) = [Auth_flow cid]"
| "effect_of (Open_external s k) = [External_open]"
| "effect_of _ = []"

fun outcome_of :: "'a step \<Rightarrow> 'a outcome" where
  "outcome_of (Done s a) = Returned a s"
| "outcome_of (Throw s) = Threw s"
| "outcome_of Out_of_fuel = Diverged"
| "outcome_of (Post_token s rt cid k) = Blocked s"
| "outcome_of (Call_api s e tok k) = Blocked s"
| "outcome_of (Show_warning s p k) = Blocked s"
| "outcome_of (Auth_server s cid k) = Blocked s"
| "outcome_of (Open_external s k) = Blocked s"

fun resume :: "answer \<Rightarrow> SpotifyService \<Rightarrow> 'a step \<Rightarrow> 'a step option" where
  "resume (Token_answer r) s (Post_token s' rt cid k) = Some (k r s)"
| "resume (Api_answer r) s (Call_api s' e tok k) = Some (k r s)"
| "resume (Choice c) s (Show_warning s' p k) = Some (k c s)"
| "resume (Auth_answer r) s (Auth_server s' cid k) = Some (k r s)"
| "resume Opened s (Open_external s' k) = Some (k s)"
| "resume _ s _ = None"

fun state_of :: "'a step \<Rightarrow> SpotifyService \<Rightarrow> SpotifyService" where
  "state_of (Done s a) before = s"
| "state_of (Throw s) before = s"
| "state_of Out_of_fuel before = before"
| "state_of (Post_token s rt cid k) before = s"
| "state_of (Call_api s e tok k) before = s"
| "state_of (Show_warning s p k) before = s"
| "state_of (Auth_server s cid k) before = s"
| "state_of (Open_external s k) before = s"

definition elapse :: "nat \<Rightarrow> SpotifyService \<Rightarrow> SpotifyService" where
  "elapse d s = s\<lparr>now := now s + int d\<rparr>"

fun exec :: "SpotifyService \<Rightarrow> 'a step \<Rightarrow> (nat \<times> answer) list \<Rightarrow> effect list \<times> 'a outcome" where
  "exec before st [] = (effect_of st, outcome_of st)"
| "exec before st ((d, a) # script) =
     (case resume a (elapse d (state_of st before)) st of
        None \<Rightarrow> (effect_of st, outcome_of st)
      | Some st' \<Rightarrow>
          (effect_of st @ fst (exec (elapse d (state_of st before)) st' script),
           snd (exec (elapse d (state_of st before)) st' script)))"

definition run :: "(SpotifyService \<Rightarrow> 'a step) \<Rightarrow> SpotifyService \<Rightarrow> (nat \<times> answer) list
    \<Rightarrow> effect list \<times> 'a outcome" where
  "run call s script = exec s (call s) script"

subsection \<open>Several calls in flight\<close>

text \<open>
  The event loop: the calls in flight share the state of the service. An event either starts
  a call, which runs until it returns or is suspended, or delivers, after some time, an answer
  to the call at position \<open>i\<close>, which then runs on until it returns or is suspended again.
  \<open>issued\<close> collects the requests made, in order.
\<close>

record 'a system =
  shared :: SpotifyService
  tasks :: "'a step list"
  issued :: "effect list"

datatype 'a sched_event = Invoke "SpotifyService \<Rightarrow> 'a step" | Deliver nat nat answer

fun sched :: "'a system \<Rightarrow> 'a sched_event \<Rightarrow> 'a system" where
  "sched sys (Invoke call) =
     (let st = call (shared sys)
      in \<lparr>shared = state_of st (shared sys), tasks = tasks sys @ [st],
          issued = issued sys @ effect_of st\<rparr>)"
| "sched sys (Deliver i d a) =
     (if i < length (tasks sys) then
        (case resume a (elapse d (shared sys)) (tasks sys ! i) of
           None \<Rightarrow> sys
         | Some st \<Rightarrow>
             \<lparr>shared = state_of st (elapse d (shared sys)), tasks = (tasks sys)[i := st],
              issued = issued sys @ effect_of st\<rparr>)
      else sys)"

definition idle :: "SpotifyService \<Rightarrow> 'a system" where
  "idle s = \<lparr>shared = s, tasks = [], issued = []\<rparr>"

subsection \<open>The held credential and the stored one\<close>

text \<open>
  A state is coherent when a credential held is the one stored. \<open>keeps_coherent\<close> says of a
  call that every state it leaves behind is coherent as long as it is resumed on coherent
  states.
\<close>

definition coherent :: "SpotifyService \<Rightarrow> bool" where
  "coherent s = (tokens s = None \<or> tokens s = globalState s)"

primrec keeps_coherent :: "'a step \<Rightarrow> bool" where
  "keeps_coherent (Done s a) = coherent s"
| "keeps_coherent (Throw s) = coherent s"
| "keeps_coherent Out_of_fuel = True"
| "keeps_coherent (Post_token s rt cid k) =
     (coherent s \<and> (\<forall>r s'. coherent s' \<longrightarrow> keeps_coherent (k r s')))"
| "keeps_coherent (Call_api s e tok k) =
     (coherent s \<and> (\<forall>r s'. coherent s' \<longrightarrow> keeps_coherent (k r s')))"
| "keeps_coherent (Show_warning s p k) =
     (coherent s \<and> (\<forall>c s'. coherent s' \<longrightarrow> keeps_coherent (k c s')))"
| "keeps_coherent (Auth_server s cid k) =
     (coherent s \<and> (\<forall>r s'. coherent s' \<longrightarrow> keeps_coherent (k r s')))"
| "keeps_coherent (Open_external s k) =
     (coherent s \<and> (\<forall>s'. coherent s' \<longrightarrow> keeps_coherent (k s')))"

fun outcome_state :: "'a outcome \<Rightarrow> SpotifyService option" where
  "outcome_state (Returned a s) = Some s"
| "outcome_state (Threw s) = Some s"
| "outcome_state (Blocked s) = Some s"
| "outcome_state Diverged = None"

subsection \<open>Example states\<close>

definition held_example :: SpotifyTokens where
  "held_example = \<lparr>accessToken = ''old'', refreshToken = ''r'', expiresAt = 1000\<rparr>"

definition expiring_example :: SpotifyService where
  "expiring_example = \<lparr>tokens = Some held_example, globalState = Some held_example, now = 0\<rparr>"

definition valid_example :: SpotifyTokens where
  "valid_example = \<lparr>accessToken = ''old'', refreshToken = ''r'', expiresAt = 3600000\<rparr>"

definition fresh_example :: SpotifyService where
  "fresh_example = \<lparr>tokens = Some valid_example, globalState = Some valid_example, now = 0\<rparr>"

definition unrenewable_example :: SpotifyService where
  "unrenewable_example =
     \<lparr>tokens = Some \<lparr>accessToken = ''old'', refreshToken = [], expiresAt = 1000\<rparr>,
      globalState = Some \<lparr>accessToken = ''old'', refreshToken = [], expiresAt = 1000\<rparr>,
      now = 0\<rparr>"

definition issued_example :: auth_result where
  "issued_example = \<lparr>result_accessToken = ''at'', result_refreshToken = ''rt'',
     result_expiresIn = 3600\<rparr>"

definition track_example :: SpotifyTrack where
  "track_example = \<lparr>name = ''Song'', artist = ''Band'', album = ''Album'', albumArt = [],
     duration = 180000, progress = 0, isPlaying = True\<rparr>"

section \<open>Properties of the PKCE generator\<close>

lemma set_replace_all:
  "set (replace_all c r s) = (set s - {c}) \<union> (if c \<in> set s then set r else {})"
  by (induction s) (auto simp: replace_all_def)

lemma replace_all_append: "replace_all c r (xs @ ys) = replace_all c r xs @ replace_all c r ys"
  by (simp add: replace_all_def)

lemma url_replacements_append:
  "url_replacements (xs @ ys) = url_replacements xs @ url_replacements ys"
  by (simp add: url_replacements_def replace_all_append)

lemma url_replacements_Nil: "url_replacements [] = []"
  by (simp add: url_replacements_def replace_all_def)

lemma common_chars:
  "c \<in> set common_alphabet \<Longrightarrow> c \<noteq> CHR ''+'' \<and> c \<noteq> CHR ''/'' \<and> c \<noteq> CHR ''=''"
  by (auto simp: common_alphabet_def)

lemma length_common: "length common_alphabet = 62"
  by (simp add: common_alphabet_def)

lemma sextet_char:
  assumes "i < 64"
  shows "url_replacements [std_alphabet ! i] = [url_alphabet ! i]"
proof (cases "i < 62")
  case True
  then have "common_alphabet ! i \<in> set common_alphabet"
    by (simp add: length_common)
  then have "common_alphabet ! i \<noteq> CHR ''+'' \<and> common_alphabet ! i \<noteq> CHR ''/''
      \<and> common_alphabet ! i \<noteq> CHR ''=''"
    by (rule common_chars)
  with True show ?thesis
    by (simp add: url_replacements_def std_alphabet_def url_alphabet_def nth_append
        length_common replace_all_def)
next
  case False
  with assms have "i = 62 \<or> i = 63" by arith
  then show ?thesis
    by (auto simp: url_replacements_def std_alphabet_def url_alphabet_def nth_append
        length_common replace_all_def)
qed

lemma sextets_chars:
  assumes "\<forall>i \<in> set js. i < 64"
  shows "url_replacements (map ((!) std_alphabet) js) = map ((!) url_alphabet) js"
  using assms
proof (induction js)
  case Nil
  then show ?case by (simp add: url_replacements_Nil)
next
  case (Cons i js)
  have "map ((!) std_alphabet) (i # js) = [std_alphabet ! i] @ map ((!) std_alphabet) js"
    by simp
  then have "url_replacements (map ((!) std_alphabet) (i # js))
      = url_replacements [std_alphabet ! i] @ url_replacements (map ((!) std_alphabet) js)"
    by (simp only: url_replacements_append)
  moreover have "url_replacements [std_alphabet ! i] = [url_alphabet ! i]"
    using Cons.prems by (intro sextet_char) simp
  moreover have "url_replacements (map ((!) std_alphabet) js) = map ((!) url_alphabet) js"
    using Cons.prems by (intro Cons.IH) simp
  ultimately show ?case
    by (simp only: list.map append.simps)
qed

lemma sextets3_bound: "\<forall>i \<in> set (sextets3 a b c). i < 64"
proof -
  have "unat a < 256" "unat b < 256" "unat c < 256"
    using unsigned_less [of a, where ?'a = nat] unsigned_less [of b, where ?'a = nat]
      unsigned_less [of c, where ?'a = nat] by simp_all
  then show ?thesis
    by (auto simp: sextets3_def)
qed

lemma sextets3_take_bound: "\<forall>i \<in> set (take n (sextets3 a b c)). i < 64"
  using sextets3_bound by (meson in_set_takeD)

lemma padding_removed:
  "url_replacements ''=='' = []" "url_replacements ''='' = []"
  by (simp_all add: url_replacements_def replace_all_def)

lemma base64URLEncode_refines: "base64URLEncode buffer = base64url_nopad buffer"
  unfolding base64URLEncode_def
proof (induction buffer rule: toString_base64.induct)
  case 1
  then show ?case by (simp add: url_replacements_Nil)
next
  case (2 a)
  show ?case
    by (simp only: toString_base64.simps base64url_nopad.simps url_replacements_append
        sextets_chars [OF sextets3_take_bound] padding_removed) simp
next
  case (3 a b)
  show ?case
    by (simp only: toString_base64.simps base64url_nopad.simps url_replacements_append
        sextets_chars [OF sextets3_take_bound] padding_removed) simp
next
  case (4 a b c rest)
  then show ?case
    by (simp only: toString_base64.simps base64url_nopad.simps url_replacements_append
        sextets_chars [OF sextets3_bound])
qed

lemma base64URLEncode_url_safe:
  "CHR ''+'' \<notin> set (base64URLEncode buffer) \<and> CHR ''/'' \<notin> set (base64URLEncode buffer)
   \<and> CHR ''='' \<notin> set (base64URLEncode buffer)"
  by (simp add: base64URLEncode_def url_replacements_def set_replace_all)

text \<open>
  C9. For every verifier \<open>v\<close> (and every hash function in place of SHA-256),
  \<open>generateCodeChallenge\<close> is deterministic, its output is the unpadded base64url encoding
  of the digest of \<open>v\<close>, and the output contains none of the characters \<^verbatim>\<open>+\<close>, \<^verbatim>\<open>/\<close>, \<^verbatim>\<open>=\<close>.
\<close>

theorem generateCodeChallenge_base64url_sha256:
  "(v = v' \<longrightarrow> generateCodeChallenge sha256 v = generateCodeChallenge sha256 v')
   \<and> generateCodeChallenge sha256 v = base64url_nopad (sha256 v)
   \<and> CHR ''+'' \<notin> set (generateCodeChallenge sha256 v)
   \<and> CHR ''/'' \<notin> set (generateCodeChallenge sha256 v)
   \<and> CHR ''='' \<notin> set (generateCodeChallenge sha256 v)"
  using base64URLEncode_url_safe [of "sha256 v"]
  by (simp add: generateCodeChallenge_def base64URLEncode_refines)

theorem generateCodeChallenge_witness:
  "generateCodeChallenge (\<lambda>s. [0xfb, 0xff]) ''abc'' = ''-_8''
   \<and> generateCodeChallenge (\<lambda>s. [0xfb, 0xff]) ''abc'' = base64url_nopad [0xfb, 0xff]
   \<and> CHR ''+'' \<notin> set (generateCodeChallenge (\<lambda>s. [0xfb, 0xff]) ''abc'')"
  using generateCodeChallenge_base64url_sha256 [of "''abc''" "''abc''" "\<lambda>s. [0xfb, 0xff]"]
  by (simp add: sextets3_def url_alphabet_def common_alphabet_def)

section \<open>Properties of the callback listener\<close>

lemmas auth_defs = close_server_def resolve_def respond_def on_request_def on_exchange_reply_def
  on_timeout_def dispose_def

lemma deliver_quiet:
  assumes "outcome a = Pending" "exchanges a = []" "\<not> is_callback e"
  shows "outcome (deliver a e) = Pending \<and> exchanges (deliver a e) = []"
  using assms by (cases e) (auto simp: auth_defs)

lemma foldl_deliver_quiet:
  assumes "outcome a = Pending" "exchanges a = []" "\<forall>e \<in> set evs. \<not> is_callback e"
  shows "outcome (foldl deliver a evs) = Pending \<and> exchanges (foldl deliver a evs) = []"
  using assms
proof (induction evs arbitrary: a)
  case Nil
  then show ?case by simp
next
  case (Cons e evs)
  then have "outcome (deliver a e) = Pending \<and> exchanges (deliver a e) = []"
    by (intro deliver_quiet) simp_all
  with Cons show ?case by simp
qed

lemma deliver_settled:
  assumes "\<not> server_listening a" "outcome a = Resolved v"
  shows "\<not> server_listening (deliver a e) \<and> outcome (deliver a e) = Resolved v"
  using assms by (cases e) (auto simp: auth_defs Let_def split: exchange_reply.splits)

lemma foldl_deliver_settled:
  assumes "\<not> server_listening a" "outcome a = Resolved v"
  shows "\<not> server_listening (foldl deliver a evs) \<and> outcome (foldl deliver a evs) = Resolved v"
  using assms
proof (induction evs arbitrary: a)
  case Nil
  then show ?case by simp
next
  case (Cons e evs)
  then show ?case using deliver_settled [of a v e] by simp
qed

lemma on_timeout_pending:
  assumes "outcome a = Pending"
  shows "\<not> server_listening (on_timeout a) \<and> outcome (on_timeout a) = Resolved None"
  using assms by (simp add: auth_defs)

text \<open>
  C8. When no request on the callback path arrives before the 5-minute timer, then at every
  instant from the timer on the listener is closed (its port is free for the next attempt) and
  the attempt is resolved with null. Wall-clock time is the arrival time of each event, in
  milliseconds since \<open>authenticate\<close> was called; the timer fires at \<open>timeout_ms\<close>.
\<close>

theorem timeout_closes_and_resolves_null:
  assumes "timeout_ms \<le> t"
    and "\<forall>(at, e) \<in> set timeline. at < timeout_ms \<longrightarrow> \<not> is_callback e"
  shows "\<not> server_listening (attempt_at t timeline (authenticate_start verifier st))
       \<and> outcome (attempt_at t timeline (authenticate_start verifier st)) = Resolved None"
proof -
  let ?early = "map snd (filter (\<lambda>(at, e). at < timeout_ms \<and> at \<le> t) timeline)"
  let ?late = "map snd (filter (\<lambda>(at, e). timeout_ms \<le> at \<and> at \<le> t) timeline)"
  let ?a0 = "authenticate_start verifier st"
  have "\<forall>e \<in> set ?early. \<not> is_callback e"
    using assms(2) by auto
  moreover have "outcome ?a0 = Pending" "exchanges ?a0 = []"
    by (simp_all add: authenticate_start_def)
  ultimately have "outcome (foldl deliver ?a0 ?early) = Pending"
    using foldl_deliver_quiet [of ?a0 ?early] by simp
  then have "\<not> server_listening (on_timeout (foldl deliver ?a0 ?early))
      \<and> outcome (on_timeout (foldl deliver ?a0 ?early)) = Resolved None"
    by (rule on_timeout_pending)
  then have "\<not> server_listening (foldl deliver (on_timeout (foldl deliver ?a0 ?early)) ?late)
      \<and> outcome (foldl deliver (on_timeout (foldl deliver ?a0 ?early)) ?late) = Resolved None"
    using foldl_deliver_settled by blast
  with assms(1) show ?thesis
    by (simp add: attempt_at_def Let_def)
qed

theorem timeout_witness:
  "\<not> server_listening (attempt_at 300000 [(1200, Request favicon_request)]
       (authenticate_start ''v'' ''s''))
   \<and> outcome (attempt_at 300000 [(1200, Request favicon_request)]
       (authenticate_start ''v'' ''s'')) = Resolved None"
  using timeout_closes_and_resolves_null [of 300000 "[(1200, Request favicon_request)]" "''v''" "''s''"]
  by (simp add: timeout_ms_def favicon_request_def)

lemma deliver_state: "state (deliver a e) = state a"
  by (cases e) (auto simp: auth_defs Let_def split: exchange_reply.splits)

lemma deliver_listening_pending:
  assumes "server_listening a \<longrightarrow> outcome a = Pending"
  shows "server_listening (deliver a e) \<longrightarrow> outcome (deliver a e) = Pending"
  using assms by (cases e) (auto simp: auth_defs Let_def split: exchange_reply.splits)

lemma reachable_listening_pending:
  "state (foldl deliver (authenticate_start verifier st) evs) = st
   \<and> (server_listening (foldl deliver (authenticate_start verifier st) evs)
        \<longrightarrow> outcome (foldl deliver (authenticate_start verifier st) evs) = Pending)"
proof (induction evs rule: rev_induct)
  case Nil
  then show ?case by (simp add: authenticate_start_def)
next
  case (snoc e evs)
  then show ?case
    using deliver_listening_pending [of "foldl deliver (authenticate_start verifier st) evs" e]
    by (simp add: deliver_state)
qed

text \<open>
  C5. A request on the callback path, delivered to a listening attempt, that carries no
  (truthy) \<open>error\<close> and whose \<open>state\<close> is not the expected one resolves the attempt with
  null behind the ``State mismatch'' page and closes the listener, whatever \<open>code\<close> it carries.
\<close>

theorem state_mismatch_resolves_failure:
  assumes "a = foldl deliver (authenticate_start verifier st) evs"
    and "server_listening a"
    and "pathname req = Some ''/callback''"
    and "\<not> truthy (query_error req)"
    and "query_state req \<noteq> Single st"
  shows "deliver a (Request req) =
           a\<lparr>pages := pages a @ [Error_html ''State mismatch''], server_listening := False,
             outcome := Resolved None\<rparr>"
proof -
  have "state a = st" "outcome a = Pending"
    using assms(1,2) reachable_listening_pending [of verifier st evs] by simp_all
  moreover have "strict_neq (query_state req) st"
    using assms(5) by (cases "query_state req") simp_all
  ultimately show ?thesis
    using assms(2-4) by (simp add: auth_defs)
qed

theorem state_mismatch_witness:
  "deliver (authenticate_start ''v'' ''expected'')
     (Request \<lparr>pathname = Some ''/callback'', query_code = Single ''AQD'',
        query_state = Single ''forged'', query_error = Absent\<rparr>) =
   \<lparr>state = ''expected'', codeVerifier = ''v'', server_listening = False,
    outcome = Resolved None, pages = [Error_html ''State mismatch''], exchanges = []\<rparr>"
  using state_mismatch_resolves_failure [of "authenticate_start ''v'' ''expected''" "''v''"
      "''expected''" "[]"
      "\<lparr>pathname = Some ''/callback'', query_code = Single ''AQD'',
        query_state = Single ''forged'', query_error = Absent\<rparr>"]
  by (simp add: authenticate_start_def)

text \<open>
  C6 as stated fails: a callback whose query contains \<open>error\<close> with an empty value passes
  the test \<^verbatim>\<open>if (error)\<close>; with the expected state and a code the exchange is made and the
  attempt resolves with the tokens.
\<close>

theorem empty_error_param_counterexample:
  "query_error \<lparr>pathname = Some ''/callback'', query_code = Single ''AQD'',
      query_state = Single ''expected'', query_error = Single []\<rparr> \<noteq> Absent
   \<and> foldl deliver (authenticate_start ''v'' ''expected'')
       [Request \<lparr>pathname = Some ''/callback'', query_code = Single ''AQD'',
          query_state = Single ''expected'', query_error = Single []\<rparr>,
        Exchange_reply 0 (Exchange_ok \<lparr>result_accessToken = ''at'', result_refreshToken = ''rt'',
          result_expiresIn = 3600\<rparr>)] =
     \<lparr>state = ''expected'', codeVerifier = ''v'', server_listening = False,
      outcome = Resolved (Some \<lparr>result_accessToken = ''at'', result_refreshToken = ''rt'',
          result_expiresIn = 3600\<rparr>),
      pages = [Success_html], exchanges = []\<rparr>"
  by (simp add: authenticate_start_def auth_defs)

text \<open>
  C6, amended. A request on the callback path whose \<open>error\<close> parameter is truthy (a non-empty
  string, or repeated) resolves the attempt with null behind the error page that shows the
  provider's error, and closes the listener, whatever \<open>code\<close> and \<open>state\<close> it carries; no
  exchange is started.
\<close>

theorem error_param_resolves_denied:
  assumes "a = foldl deliver (authenticate_start verifier st) evs"
    and "server_listening a"
    and "pathname req = Some ''/callback''"
    and "truthy (query_error req)"
  shows "deliver a (Request req) =
           a\<lparr>pages := pages a @ [Error_html (js_string (query_error req))],
             server_listening := False, outcome := Resolved None\<rparr>"
proof -
  have "outcome a = Pending"
    using assms(1,2) reachable_listening_pending [of verifier st evs] by simp
  then show ?thesis
    using assms(2-4) by (simp add: auth_defs)
qed

theorem error_param_witness:
  "deliver (authenticate_start ''v'' ''expected'')
     (Request \<lparr>pathname = Some ''/callback'', query_code = Single ''AQD'',
        query_state = Single ''expected'', query_error = Single ''access_denied''\<rparr>) =
   \<lparr>state = ''expected'', codeVerifier = ''v'', server_listening = False,
    outcome = Resolved None, pages = [Error_html ''access_denied''], exchanges = []\<rparr>"
  using error_param_resolves_denied [of "authenticate_start ''v'' ''expected''" "''v''"
      "''expected''" "[]"
      "\<lparr>pathname = Some ''/callback'', query_code = Single ''AQD'',
        query_state = Single ''expected'', query_error = Single ''access_denied''\<rparr>"]
  by (simp add: authenticate_start_def)

lemma callback_without_code_ignored:
  assumes "pathname req = Some ''/callback''" "\<not> truthy (query_error req)"
    "query_state req = Single (state a)" "\<not> truthy (query_code req)"
  shows "deliver a (Request req) = a"
  using assms by (simp add: auth_defs)

text \<open>
  C7 fails on the code: the handler has no branch for a callback with the expected state and
  neither \<open>error\<close> nor \<open>code\<close>. The request gets no response, the listener stays open and
  the attempt stays pending.
\<close>

theorem callback_without_code_left_pending:
  "deliver (authenticate_start ''v'' ''expected'')
     (Request \<lparr>pathname = Some ''/callback'', query_code = Absent,
        query_state = Single ''expected'', query_error = Absent\<rparr>) =
   \<lparr>state = ''expected'', codeVerifier = ''v'', server_listening = True,
    outcome = Pending, pages = [], exchanges = []\<rparr>"
  by (simp add: authenticate_start_def auth_defs)

lemma deliver_not_rejected:
  assumes "outcome a \<noteq> Rejected"
  shows "outcome (deliver a e) \<noteq> Rejected"
  using assms by (cases e) (auto simp: auth_defs Let_def split: exchange_reply.splits)

lemma foldl_deliver_not_rejected:
  assumes "outcome a \<noteq> Rejected"
  shows "outcome (foldl deliver a evs) \<noteq> Rejected"
  using assms by (induction evs arbitrary: a) (simp_all add: deliver_not_rejected)

lemma on_timeout_not_rejected:
  assumes "outcome a \<noteq> Rejected"
  shows "outcome (on_timeout a) \<noteq> Rejected"
  using assms by (simp add: auth_defs)

lemma attempt_never_rejected:
  "outcome (attempt_at t timeline (authenticate_start verifier st)) \<noteq> Rejected"
proof -
  have "outcome (authenticate_start verifier st) \<noteq> Rejected"
    by (simp add: authenticate_start_def)
  then show ?thesis
    by (simp add: attempt_at_def Let_def foldl_deliver_not_rejected on_timeout_not_rejected)
qed

lemma failures_resolve_null:
  assumes "outcome a = Pending" "server_listening a"
  shows "pathname req = Some ''/callback'' \<and> truthy (query_error req)
           \<longrightarrow> outcome (deliver a (Request req)) = Resolved None"
    and "pathname req = Some ''/callback'' \<and> \<not> truthy (query_error req)
           \<and> strict_neq (query_state req) (state a)
           \<longrightarrow> outcome (deliver a (Request req)) = Resolved None"
    and "i < length (exchanges a)
           \<longrightarrow> outcome (deliver a (Exchange_reply i Exchange_failed)) = Resolved None"
    and "outcome (on_timeout a) = Resolved None"
  using assms by (simp_all add: auth_defs Let_def)

section \<open>Properties of the token manager\<close>

lemmas service_defs = run_def elapse_def saveTokens_def clear_both_def refreshed_tokens_def
  issued_tokens_def

subsection \<open>The held credential is the persisted one\<close>

lemma coherent_updates:
  "coherent (saveTokens t s)" "coherent (clear_both s)"
  "coherent s \<Longrightarrow> coherent (elapse d s)"
  "globalState s = Some saved \<Longrightarrow> coherent (s\<lparr>tokens := Some saved\<rparr>)"
  by (simp_all add: coherent_def service_defs)

lemma keeps_coherent_bind:
  assumes "keeps_coherent m" "\<And>a s. coherent s \<Longrightarrow> keeps_coherent (f a s)"
  shows "keeps_coherent (bind m f)"
  using assms by (induction m) (simp_all, (meson rangeI)+)

lemma keeps_coherent_try_catch:
  assumes "keeps_coherent m" "\<And>s. coherent s \<Longrightarrow> keeps_coherent (h s)"
  shows "keeps_coherent (try_catch m h)"
  using assms by (induction m) (simp_all, (meson rangeI)+)

lemma keeps_coherent_calls:
  "\<forall>s. coherent s \<longrightarrow>
     keeps_coherent (loadTokens n s) \<and> keeps_coherent (refreshAccessToken n s)
     \<and> keeps_coherent (authenticate n s) \<and> keeps_coherent (getValidToken n s)
     \<and> keeps_coherent (getCurrentTrack n s)"
proof (induction n)
  case 0
  then show ?case by simp
next
  case (Suc n)
  show ?case
  proof (intro allI impI)
    fix s
    assume s: "coherent s"
    have refresh: "keeps_coherent (refreshAccessToken (Suc n) s)"
      using s Suc
      by (auto simp: coherent_updates split: option.splits token_reply.splits
          intro!: keeps_coherent_bind)
    have load: "keeps_coherent (loadTokens (Suc n) s)"
      using s Suc
      by (auto simp: coherent_updates split: option.splits intro!: keeps_coherent_bind)
    have auth: "keeps_coherent (authenticate (Suc n) s)"
      using s Suc
      by (auto simp: coherent_updates CLIENT_ID_def split: option.splits
          intro!: keeps_coherent_bind keeps_coherent_try_catch)
    have valid: "keeps_coherent (getValidToken (Suc n) s)"
      using s Suc
      by (auto simp: coherent_updates split: option.splits
          intro!: keeps_coherent_bind)
    have track: "keeps_coherent (getCurrentTrack (Suc n) s)"
      using s Suc
      by (auto simp: coherent_updates split: option.splits api_reply.splits
          intro!: keeps_coherent_bind)
    from load refresh auth valid track
    show "keeps_coherent (loadTokens (Suc n) s) \<and> keeps_coherent (refreshAccessToken (Suc n) s)
      \<and> keeps_coherent (authenticate (Suc n) s) \<and> keeps_coherent (getValidToken (Suc n) s)
      \<and> keeps_coherent (getCurrentTrack (Suc n) s)"
      by simp
  qed
qed

lemma keeps_coherent_state_of:
  assumes "keeps_coherent st" "coherent s"
  shows "coherent (state_of st s)"
  using assms by (cases st) simp_all

lemma keeps_coherent_resume:
  assumes "keeps_coherent st" "coherent s" "resume a s st = Some st'"
  shows "keeps_coherent st'"
  using assms by (cases st; cases a) auto

lemma keeps_coherent_outcome:
  assumes "keeps_coherent st" "outcome_state (outcome_of st) = Some s"
  shows "coherent s"
  using assms by (cases st) auto

lemma exec_coherent:
  assumes "keeps_coherent st" "coherent s" "outcome_state (snd (exec s st script)) = Some s'"
  shows "coherent s'"
  using assms
proof (induction script arbitrary: st s)
  case Nil
  then show ?case using keeps_coherent_outcome [of st s'] by simp
next
  case (Cons x script)
  obtain d a where x: "x = (d, a)" by (cases x)
  let ?s = "elapse d (state_of st s)"
  have s: "coherent ?s"
    using Cons.prems(1,2) by (simp add: keeps_coherent_state_of coherent_updates)
  show ?case
  proof (cases "resume a ?s st")
    case None
    then show ?thesis
      using Cons.prems keeps_coherent_outcome [of st s'] by (simp add: x)
  next
    case (Some st')
    then have "keeps_coherent st'"
      using keeps_coherent_resume [OF Cons.prems(1) s] by simp
    moreover have "outcome_state (snd (exec ?s st' script)) = Some s'"
      using Cons.prems(3) Some by (simp add: x)
    ultimately show ?thesis
      using Cons.IH [of st' ?s] s by simp
  qed
qed

lemma getValidToken_keeps_coherent:
  assumes "coherent s" "outcome_state (snd (run (getValidToken n) s script)) = Some s'"
  shows "coherent s'"
  using assms keeps_coherent_calls [of n] exec_coherent [of "getValidToken n s" s script s']
  by (simp add: run_def)

lemma sched_coherent:
  assumes "coherent (shared sys)" "\<forall>st \<in> set (tasks sys). keeps_coherent st"
    and "\<And>call s. ev = Invoke call \<Longrightarrow> coherent s \<Longrightarrow> keeps_coherent (call s)"
  shows "coherent (shared (sched sys ev))
       \<and> (\<forall>st \<in> set (tasks (sched sys ev)). keeps_coherent st)"
proof (cases ev)
  case (Invoke call)
  then have "keeps_coherent (call (shared sys))"
    using assms(1,3) by simp
  then show ?thesis
    using assms(1,2) Invoke by (simp add: Let_def keeps_coherent_state_of)
next
  case (Deliver i d a)
  show ?thesis
  proof (cases "i < length (tasks sys) \<and> resume a (elapse d (shared sys)) (tasks sys ! i) \<noteq> None")
    case True
    then obtain st where st: "resume a (elapse d (shared sys)) (tasks sys ! i) = Some st"
      by auto
    have now: "coherent (elapse d (shared sys))"
      using assms(1) by (simp add: coherent_updates)
    have "keeps_coherent (tasks sys ! i)"
      using True assms(2) by simp
    then have "keeps_coherent st"
      using keeps_coherent_resume [OF _ now st] by simp
    moreover have "\<forall>x \<in> set ((tasks sys)[i := st]). x = st \<or> x \<in> set (tasks sys)"
      using set_update_subset_insert [of "tasks sys" i st] by auto
    ultimately show ?thesis
      using True st now assms(2) Deliver by (auto simp: keeps_coherent_state_of)
  next
    case False
    then show ?thesis
      using assms(1,2) Deliver by (auto split: option.splits)
  qed
qed

subsection \<open>The expiry policy and the refresh\<close>

lemma getValidToken_fresh:
  assumes "tokens s = Some held" "now s + 5 * 60 * 1000 \<le> expiresAt held"
  shows "getValidToken (Suc n) s = Done s (Some (accessToken held))"
  using assms by simp

lemma getValidToken_no_refresh_token:
  assumes "tokens s = Some held" "expiresAt held < now s + 5 * 60 * 1000" "refreshToken held = []"
  shows "getValidToken (Suc n) s = Done s None"
  using assms by simp

lemma getValidToken_refreshes:
  assumes "tokens s = Some held" "expiresAt held < now s + 5 * 60 * 1000" "refreshToken held \<noteq> []"
    "globalState s = Some held"
  shows "\<exists>k. getValidToken (Suc (Suc n)) s = Post_token s (refreshToken held) CLIENT_ID k
     \<and> (\<forall>a r e s'. k (Token_ok a r e) s' =
           Done (saveTokens (refreshed_tokens held a r e (now s')) s') (Some a))"
  using assms by (simp add: saveTokens_def refreshed_tokens_def)

text \<open>
  C4. With a credential held: when \<open>expiresAt\<close> is at least now + 5 minutes,
  \<open>getValidToken\<close> returns the held access token with no request of any kind and no change
  of state; when \<open>expiresAt\<close> is less than now + 5 minutes and there is no refresh token, it
  returns null, again with no request; when \<open>expiresAt\<close> is less than now + 5 minutes and a
  refresh token is present, it issues the refresh-token grant, and on the provider's success
  returns the new access token. \<open>refreshAccessToken\<close> takes the refresh token from the
  persisted credential, which is the held one in every coherent state.
\<close>

theorem getValidToken_expiry_policy:
  assumes "tokens s = Some held"
  shows "(now s + 5 * 60 * 1000 \<le> expiresAt held \<longrightarrow>
            run (getValidToken (Suc n)) s script = ([], Returned (Some (accessToken held)) s))
       \<and> (expiresAt held < now s + 5 * 60 * 1000 \<and> refreshToken held = [] \<longrightarrow>
            run (getValidToken (Suc n)) s script = ([], Returned None s))
       \<and> (expiresAt held < now s + 5 * 60 * 1000 \<and> refreshToken held \<noteq> []
            \<and> globalState s = Some held \<longrightarrow>
            run (getValidToken (Suc (Suc n))) s [] =
              ([Refresh_grant (refreshToken held) CLIENT_ID], Blocked s)
          \<and> run (getValidToken (Suc (Suc n))) s [(d, Token_answer (Token_ok a r e))] =
              ([Refresh_grant (refreshToken held) CLIENT_ID],
               Returned (Some a)
                 (saveTokens (refreshed_tokens held a r e (now s + int d)) (elapse d s))))"
proof (intro conjI impI)
  assume "now s + 5 * 60 * 1000 \<le> expiresAt held"
  with assms have "getValidToken (Suc n) s = Done s (Some (accessToken held))"
    by (rule getValidToken_fresh)
  then show "run (getValidToken (Suc n)) s script = ([], Returned (Some (accessToken held)) s)"
    by (cases script) (auto simp: run_def)
next
  assume "expiresAt held < now s + 5 * 60 * 1000 \<and> refreshToken held = []"
  with assms have "getValidToken (Suc n) s = Done s None"
    by simp
  then show "run (getValidToken (Suc n)) s script = ([], Returned None s)"
    by (cases script) (auto simp: run_def)
next
  assume h: "expiresAt held < now s + 5 * 60 * 1000 \<and> refreshToken held \<noteq> []
      \<and> globalState s = Some held"
  with assms obtain k where k: "getValidToken (Suc (Suc n)) s
        = Post_token s (refreshToken held) CLIENT_ID k"
      "\<And>a r e s'. k (Token_ok a r e) s' =
           Done (saveTokens (refreshed_tokens held a r e (now s')) s') (Some a)"
    using getValidToken_refreshes [of s held n] by blast
  show "run (getValidToken (Suc (Suc n))) s [] =
      ([Refresh_grant (refreshToken held) CLIENT_ID], Blocked s)"
    unfolding run_def k(1) by simp
  show "run (getValidToken (Suc (Suc n))) s [(d, Token_answer (Token_ok a r e))] =
      ([Refresh_grant (refreshToken held) CLIENT_ID],
       Returned (Some a) (saveTokens (refreshed_tokens held a r e (now s + int d)) (elapse d s)))"
    unfolding run_def k(1) by (simp add: k(2) elapse_def)
qed

theorem getValidToken_expiry_policy_witness:
  "run (getValidToken (Suc 0)) fresh_example [] = ([], Returned (Some ''old'') fresh_example)
   \<and> run (getValidToken (Suc 0)) unrenewable_example [] = ([], Returned None unrenewable_example)
   \<and> run (getValidToken (Suc (Suc 0))) expiring_example
         [(7, Token_answer (Token_ok ''new'' [] 3600))] =
       ([Refresh_grant ''r'' CLIENT_ID],
        Returned (Some ''new'')
          \<lparr>tokens = Some \<lparr>accessToken = ''new'', refreshToken = ''r'', expiresAt = 3600007\<rparr>,
           globalState = Some \<lparr>accessToken = ''new'', refreshToken = ''r'', expiresAt = 3600007\<rparr>,
           now = 7\<rparr>)"
  using getValidToken_expiry_policy [where s = fresh_example and held = valid_example and n = 0
      and script = "[]"]
    getValidToken_expiry_policy [where s = unrenewable_example
      and held = "\<lparr>accessToken = ''old'', refreshToken = [], expiresAt = 1000\<rparr>" and n = 0
      and script = "[]"]
    getValidToken_expiry_policy [where s = expiring_example and held = held_example and n = 0
      and d = 7 and a = "''new''" and r = "[]" and e = 3600]
  by (simp add: expiring_example_def held_example_def fresh_example_def valid_example_def
      unrenewable_example_def service_defs)

text \<open>
  C1 as stated fails. Two callers invoke \<open>getValidToken\<close> while the held credential is
  inside the margin; each passes the expiry test before either reply arrives, so two
  refresh-token grants are issued, and the callers return different access tokens. A single
  caller whose credential has no refresh token issues none.
\<close>

theorem single_flight_counterexample:
  "issued (foldl sched (idle expiring_example)
     [Invoke (getValidToken (Suc (Suc 0))), Invoke (getValidToken (Suc (Suc 0))),
      Deliver 0 100 (Token_answer (Token_ok ''new1'' [] 3600)),
      Deliver 1 5 (Token_answer (Token_ok ''new2'' [] 3600))])
     = [Refresh_grant ''r'' CLIENT_ID, Refresh_grant ''r'' CLIENT_ID]
   \<and> map outcome_of (tasks (foldl sched (idle expiring_example)
     [Invoke (getValidToken (Suc (Suc 0))), Invoke (getValidToken (Suc (Suc 0))),
      Deliver 0 100 (Token_answer (Token_ok ''new1'' [] 3600)),
      Deliver 1 5 (Token_answer (Token_ok ''new2'' [] 3600))]))
     = [Returned (Some ''new1'')
          \<lparr>tokens = Some \<lparr>accessToken = ''new1'', refreshToken = ''r'', expiresAt = 3600100\<rparr>,
           globalState = Some \<lparr>accessToken = ''new1'', refreshToken = ''r'', expiresAt = 3600100\<rparr>,
           now = 100\<rparr>,
        Returned (Some ''new2'')
          \<lparr>tokens = Some \<lparr>accessToken = ''new2'', refreshToken = ''r'', expiresAt = 3600105\<rparr>,
           globalState = Some \<lparr>accessToken = ''new2'', refreshToken = ''r'', expiresAt = 3600105\<rparr>,
           now = 105\<rparr>]
   \<and> run (getValidToken (Suc (Suc 0))) unrenewable_example []
     = ([], Returned None unrenewable_example)"
  by (simp add: idle_def expiring_example_def held_example_def unrenewable_example_def
      service_defs Let_def)

lemma invoke_getValidToken:
  assumes "tokens (shared sys) = Some held" "globalState (shared sys) = Some held"
    "expiresAt held < now (shared sys) + 5 * 60 * 1000" "refreshToken held \<noteq> []"
  shows "shared (sched sys (Invoke (getValidToken (Suc (Suc n))))) = shared sys
       \<and> issued (sched sys (Invoke (getValidToken (Suc (Suc n)))))
           = issued sys @ [Refresh_grant (refreshToken held) CLIENT_ID]"
  using assms by (simp add: Let_def)

lemma invoke_getValidToken_many:
  assumes "tokens (shared sys) = Some held" "globalState (shared sys) = Some held"
    "expiresAt held < now (shared sys) + 5 * 60 * 1000" "refreshToken held \<noteq> []"
  shows "shared (foldl sched sys (replicate N (Invoke (getValidToken (Suc (Suc n)))))) = shared sys
       \<and> issued (foldl sched sys (replicate N (Invoke (getValidToken (Suc (Suc n))))))
           = issued sys @ replicate N (Refresh_grant (refreshToken held) CLIENT_ID)"
  using assms
proof (induction N arbitrary: sys)
  case 0
  then show ?case by simp
next
  case (Suc N)
  let ?sys = "sched sys (Invoke (getValidToken (Suc (Suc n))))"
  have step: "shared ?sys = shared sys"
    "issued ?sys = issued sys @ [Refresh_grant (refreshToken held) CLIENT_ID]"
    using invoke_getValidToken [OF Suc.prems] by simp_all
  have "shared (foldl sched ?sys (replicate N (Invoke (getValidToken (Suc (Suc n)))))) = shared ?sys
       \<and> issued (foldl sched ?sys (replicate N (Invoke (getValidToken (Suc (Suc n))))))
           = issued ?sys @ replicate N (Refresh_grant (refreshToken held) CLIENT_ID)"
    using Suc.prems by (intro Suc.IH) (simp_all add: step)
  then show ?case
    by (simp only: replicate_Suc foldl_Cons step append_assoc append_Cons append_Nil)
qed

text \<open>
  C1, amended. \<open>getValidToken\<close> has no single-flight guard. When the held credential (also the
  persisted one) has \<open>expiresAt\<close> less than now + 5 minutes and a refresh token, every one of
  \<open>N\<close> callers that invoke it before any refresh reply arrives issues a refresh-token grant of
  its own: \<open>N\<close> grants in all, which is exactly one only when \<open>N = 1\<close>.
\<close>

theorem concurrent_callers_each_refresh:
  assumes "tokens s = Some held" "globalState s = Some held"
    "expiresAt held < now s + 5 * 60 * 1000" "refreshToken held \<noteq> []"
  shows "issued (foldl sched (idle s) (replicate N (Invoke (getValidToken (Suc (Suc n))))))
           = replicate N (Refresh_grant (refreshToken held) CLIENT_ID)"
  using invoke_getValidToken_many [of "idle s" held N n] assms
  by (simp add: idle_def)

theorem concurrent_callers_witness:
  "issued (foldl sched (idle expiring_example) (replicate 3 (Invoke (getValidToken (Suc (Suc 0))))))
     = [Refresh_grant ''r'' CLIENT_ID, Refresh_grant ''r'' CLIENT_ID, Refresh_grant ''r'' CLIENT_ID]"
  using concurrent_callers_each_refresh [where s = expiring_example and held = held_example and N = 3 and n = 0]
  by (simp add: expiring_example_def held_example_def eval_nat_numeral)








text \<open>
  The condition on other calls is needed. Two calls of \<open>pause\<close> are in flight; the first
  receives a 401 and its grant fails, which clears the stored credential; the second then
  receives its 401, finds no stored refresh token and makes no grant.
\<close>

lemma pause_401_after_cleared_store:
  "issued (foldl sched (idle fresh_example)
     [Invoke (pause (Suc 0)), Invoke (pause (Suc 0)),
      Deliver 0 40 (Api_answer (Api_error (Some 401))),
      Deliver 0 60 (Token_answer Token_error),
      Deliver 1 10 (Api_answer (Api_error (Some 401)))])
   = [Api_request Pause ''old'', Api_request Pause ''old'', Refresh_grant ''r'' CLIENT_ID,
      Prompt Refresh_failed]
   \<and> map outcome_of (tasks (foldl sched (idle fresh_example)
     [Invoke (pause (Suc 0)), Invoke (pause (Suc 0)),
      Deliver 0 40 (Api_answer (Api_error (Some 401))),
      Deliver 0 60 (Token_answer Token_error),
      Deliver 1 10 (Api_answer (Api_error (Some 401)))]))
   = [Blocked \<lparr>tokens = None, globalState = None, now = 100\<rparr>,
      Returned () \<lparr>tokens = None, globalState = None, now = 110\<rparr>]"
  by (simp add: idle_def pause_def handleApiError_def fresh_example_def valid_example_def
      service_defs Let_def)

text \<open>
  The retry of \<open>getCurrentTrack\<close> is a call of \<open>getCurrentTrack\<close> itself: a second 401 is
  handled like the first, with another grant and another request.
\<close>

lemma getCurrentTrack_second_401:
  "fst (run (getCurrentTrack (Suc (Suc (Suc (Suc 0))))) fresh_example
     [(40, Api_answer (Api_error (Some 401))), (60, Token_answer (Token_ok ''new1'' [] 3600)),
      (30, Api_answer (Api_error (Some 401))), (60, Token_answer (Token_ok ''new2'' [] 3600)),
      (30, Api_answer (Api_ok 200 (Some track_example)))])
   = [Api_request Currently_playing ''old'', Refresh_grant ''r'' CLIENT_ID,
      Api_request Currently_playing ''new1'', Refresh_grant ''r'' CLIENT_ID,
      Api_request Currently_playing ''new2'']"
  by (simp add: fresh_example_def valid_example_def service_defs)

text \<open>
  C3 as stated fails: after the failed grant the user is offered to authenticate again, and
  when that succeeds \<open>refreshAccessToken\<close> returns false with a fresh credential held and
  persisted, so \<open>isAuthenticated\<close> is true.
\<close>

theorem refresh_failure_reauth_counterexample:
  "run (refreshAccessToken (Suc (Suc (Suc (Suc 0))))) expiring_example
     [(5, Token_answer Token_error), (7, Choice True), (3, Auth_answer (Some issued_example)),
      (1, Opened), (2, Api_answer (Api_ok 204 None))]
   = ([Refresh_grant ''r'' CLIENT_ID, Prompt Refresh_failed, Auth_flow CLIENT_ID, External_open,
       Api_request Currently_playing ''at''],
      Returned False
        \<lparr>tokens = Some \<lparr>accessToken = ''at'', refreshToken = ''rt'', expiresAt = 3600015\<rparr>,
         globalState = Some \<lparr>accessToken = ''at'', refreshToken = ''rt'', expiresAt = 3600015\<rparr>,
         now = 18\<rparr>)
   \<and> isAuthenticated
        \<lparr>tokens = Some \<lparr>accessToken = ''at'', refreshToken = ''rt'', expiresAt = 3600015\<rparr>,
         globalState = Some \<lparr>accessToken = ''at'', refreshToken = ''rt'', expiresAt = 3600015\<rparr>,
         now = 18\<rparr>"
  by (simp add: expiring_example_def held_example_def issued_example_def service_defs CLIENT_ID_def
      isAuthenticated_def)

text \<open>
  C3, amended. The refresh runs while no other call of the service is in flight (\<open>run\<close>).
  When its refresh-token grant fails, the held and the persisted credential are both cleared
  at once, before the user is prompted. If the user dismisses the prompt, or chooses to
  authenticate and that attempt fails, \<open>refreshAccessToken\<close> returns false with both still
  null, and \<open>isAuthenticated\<close> is false.
\<close>

theorem failed_refresh_clears_credential:
  assumes "globalState s = Some stored" "refreshToken stored \<noteq> []"
  shows "run (refreshAccessToken (Suc n)) s [(d, Token_answer Token_error)]
           = ([Refresh_grant (refreshToken stored) CLIENT_ID, Prompt Refresh_failed],
              Blocked (clear_both (elapse d s)))
       \<and> run (refreshAccessToken (Suc n)) s [(d, Token_answer Token_error), (d', Choice False)]
           = ([Refresh_grant (refreshToken stored) CLIENT_ID, Prompt Refresh_failed],
              Returned False (elapse d' (clear_both (elapse d s))))
       \<and> run (refreshAccessToken (Suc (Suc n))) s
             [(d, Token_answer Token_error), (d', Choice True), (d'', Auth_answer None)]
           = ([Refresh_grant (refreshToken stored) CLIENT_ID, Prompt Refresh_failed,
               Auth_flow CLIENT_ID],
              Returned False (elapse d'' (elapse d' (clear_both (elapse d s)))))
       \<and> tokens (clear_both (elapse d s)) = None \<and> globalState (clear_both (elapse d s)) = None
       \<and> tokens (elapse d' (clear_both (elapse d s))) = None
       \<and> globalState (elapse d' (clear_both (elapse d s))) = None
       \<and> \<not> isAuthenticated (elapse d' (clear_both (elapse d s)))
       \<and> tokens (elapse d'' (elapse d' (clear_both (elapse d s)))) = None
       \<and> globalState (elapse d'' (elapse d' (clear_both (elapse d s)))) = None
       \<and> \<not> isAuthenticated (elapse d'' (elapse d' (clear_both (elapse d s))))"
  using assms by (simp add: service_defs CLIENT_ID_def isAuthenticated_def)

theorem failed_refresh_witness:
  "run (refreshAccessToken (Suc 0)) expiring_example [(5, Token_answer Token_error), (7, Choice False)]
     = ([Refresh_grant ''r'' CLIENT_ID, Prompt Refresh_failed],
        Returned False \<lparr>tokens = None, globalState = None, now = 12\<rparr>)
   \<and> \<not> isAuthenticated \<lparr>tokens = None, globalState = None, now = 12\<rparr>"
  using failed_refresh_clears_credential [where s = expiring_example and stored = held_example and n = 0
      and d = 5 and d' = 7]
  by (simp add: expiring_example_def held_example_def service_defs)

text \<open>
  The condition on other calls is needed. Two refreshes are in flight; the first fails and
  clears both copies, the second succeeds and stores its credential, and the first then
  returns false, its prompt dismissed, with a credential held and stored.
\<close>

lemma failed_refresh_overtaken:
  "map outcome_of (tasks (foldl sched (idle expiring_example)
     [Invoke (refreshAccessToken (Suc 0)), Invoke (refreshAccessToken (Suc 0)),
      Deliver 0 5 (Token_answer Token_error),
      Deliver 1 5 (Token_answer (Token_ok ''new'' [] 3600)),
      Deliver 0 5 (Choice False)]))
   = [Returned False
        \<lparr>tokens = Some \<lparr>accessToken = ''new'', refreshToken = ''r'', expiresAt = 3600010\<rparr>,
         globalState = Some \<lparr>accessToken = ''new'', refreshToken = ''r'', expiresAt = 3600010\<rparr>,
         now = 15\<rparr>,
      Returned True
        \<lparr>tokens = Some \<lparr>accessToken = ''new'', refreshToken = ''r'', expiresAt = 3600010\<rparr>,
         globalState = Some \<lparr>accessToken = ''new'', refreshToken = ''r'', expiresAt = 3600010\<rparr>,
         now = 10\<rparr>]
   \<and> isAuthenticated
        \<lparr>tokens = Some \<lparr>accessToken = ''new'', refreshToken = ''r'', expiresAt = 3600010\<rparr>,
         globalState = Some \<lparr>accessToken = ''new'', refreshToken = ''r'', expiresAt = 3600010\<rparr>,
         now = 15\<rparr>"
  by (simp add: idle_def expiring_example_def held_example_def service_defs Let_def
      isAuthenticated_def)

text \<open>
  C10. The promise of \<open>AuthServer.authenticate\<close> is never rejected, at any instant of any
  timeline of events. From a pending, listening attempt each failure (an \<open>error\<close> in the
  callback, a state mismatch, a failed code exchange, the timeout) resolves it with the same
  value, null; and \<open>SpotifyService.authenticate\<close> returns false when the attempt's result is
  null, leaving the held and the stored credential as they were. The executor of the promise
  binds \<open>resolve\<close> only and is taken to run to its end.
\<close>

theorem authenticate_failures_resolve_null:
  assumes "outcome a = Pending" "server_listening a"
  shows "outcome (attempt_at t timeline (authenticate_start verifier st)) \<noteq> Rejected
       \<and> (pathname req = Some ''/callback'' \<and> truthy (query_error req)
           \<longrightarrow> outcome (deliver a (Request req)) = Resolved None)
       \<and> (pathname req = Some ''/callback'' \<and> \<not> truthy (query_error req)
           \<and> strict_neq (query_state req) (state a)
           \<longrightarrow> outcome (deliver a (Request req)) = Resolved None)
       \<and> (i < length (exchanges a)
           \<longrightarrow> outcome (deliver a (Exchange_reply i Exchange_failed)) = Resolved None)
       \<and> outcome (on_timeout a) = Resolved None
       \<and> run (authenticate (Suc n)) s [(d, Auth_answer None)]
           = ([Auth_flow CLIENT_ID], Returned False (elapse d s))"
  using failures_resolve_null(1,2) [OF assms, of req] failures_resolve_null(3) [OF assms, of i]
    failures_resolve_null(4) [OF assms] attempt_never_rejected [of t timeline verifier st]
  by (simp add: service_defs CLIENT_ID_def)

theorem authenticate_failures_witness:
  "outcome (deliver (authenticate_start ''v'' ''expected'')
      (Request \<lparr>pathname = Some ''/callback'', query_code = Single ''AQD'',
         query_state = Single ''expected'', query_error = Single ''access_denied''\<rparr>))
     = Resolved None
   \<and> outcome (deliver (authenticate_start ''v'' ''expected'')
      (Request \<lparr>pathname = Some ''/callback'', query_code = Single ''AQD'',
         query_state = Single ''forged'', query_error = Absent\<rparr>))
     = Resolved None
   \<and> outcome (deliver ((authenticate_start ''v'' ''expected'')\<lparr>exchanges := [''AQD'']\<rparr>)
        (Exchange_reply 0 Exchange_failed)) = Resolved None
   \<and> outcome (on_timeout (authenticate_start ''v'' ''expected'')) = Resolved None
   \<and> run (authenticate (Suc 0)) expiring_example [(9, Auth_answer None)]
       = ([Auth_flow CLIENT_ID], Returned False (expiring_example\<lparr>now := 9\<rparr>))"
  using authenticate_failures_resolve_null [where a = "authenticate_start ''v'' ''expected''"
      and req = "\<lparr>pathname = Some ''/callback'', query_code = Single ''AQD'',
         query_state = Single ''expected'', query_error = Single ''access_denied''\<rparr>"]
    authenticate_failures_resolve_null [where a = "authenticate_start ''v'' ''expected''"
      and req = "\<lparr>pathname = Some ''/callback'', query_code = Single ''AQD'',
         query_state = Single ''forged'', query_error = Absent\<rparr>"]
    authenticate_failures_resolve_null [where
      a = "(authenticate_start ''v'' ''expected'')\<lparr>exchanges := [''AQD'']\<rparr>"
      and i = 0 and n = 0 and s = expiring_example and d = 9]
  by (simp add: authenticate_start_def expiring_example_def elapse_def)

end
